theory Spec2Isabelle
  imports
    Main
    "HOL-Library.Word"
    "HOL-Library.Multiset"
    "HOL-Library.Char_ord"
    "HOL-Library.List_Lexorder"
begin

section \<open>The file tree\<close>

text \<open>
  The development follows the revision of the program that has the HTML output
  (the second Go file of the repository, with \<^verbatim>\<open>buildFileTreeRecursive\<close>), which is
  the one the specification describes. The comparator and the
  \<^verbatim>\<open>buildFileTree\<close> of the earlier revision \<^verbatim>\<open>main.go\<close>, which differ from it, are
  embedded beside them with the suffix \<open>_v1\<close> and compared with them in the last
  section.

  \<^verbatim>\<open>type FileInfo struct { Name string; Size int64; IsDir bool; Path string;
  Children []*FileInfo }\<close>. The struct is recursive, so it is a datatype with the
  fields as selectors. A Go string is a byte sequence: \<open>string\<close> here. \<open>Size\<close> is a
  64-bit word read as two's complement, so \<open>+\<close> wraps as \<^verbatim>\<open>int64\<close> does. Every node is
  owned by its parent only, so the in-place updates of the source are modelled by
  returning the updated tree. A node of this type is never \<^verbatim>\<open>nil\<close>: the \<^verbatim>\<open>nil\<close> checks
  of the source guard calls that \<^verbatim>\<open>main\<close> never makes.
\<close>

datatype FileInfo =
  FileInfo (Name: string) (Size: "64 word") (IsDir: bool) (Path: string)
    (Children: "FileInfo list")

datatype SortType = SortByName | SortBySize

type_synonym less_func = "FileInfo \<Rightarrow> FileInfo \<Rightarrow> bool"

type_synonym sorter = "less_func \<Rightarrow> FileInfo list \<Rightarrow> FileInfo list"

section \<open>Sorting\<close>

text \<open>
  The comparator that \<^verbatim>\<open>sortFileTree\<close> hands to \<^verbatim>\<open>sort.Slice\<close>, on the two elements
  \<^verbatim>\<open>a, b := root.Children[i], root.Children[j]\<close>. \<^verbatim>\<open>strings.ToLower\<close> is a parameter
  (Go lowers by the Unicode tables); \<open><\<close> on strings is the bytewise lexicographic
  order, as in Go; \<^verbatim>\<open>a.Size > b.Size\<close> compares signed 64-bit values.
\<close>

definition sortLess :: "(string \<Rightarrow> string) \<Rightarrow> SortType \<Rightarrow> bool \<Rightarrow> less_func" where
  "sortLess ToLower sortType reverse a b =
     (case sortType of
        SortBySize \<Rightarrow>
          (let result = (Size b <s Size a) in if reverse then \<not> result else result)
      | SortByName \<Rightarrow>
          (if IsDir a \<noteq> IsDir b then IsDir a
           else (let result = (ToLower (Name a) < ToLower (Name b))
                 in if reverse then \<not> result else result)))"

text \<open>
  The comparator of the earlier revision \<^verbatim>\<open>main.go\<close>: the directories-first test
  stands before the \<^verbatim>\<open>switch\<close>, so it applies under both keys.
\<close>

definition sortLess_v1 :: "(string \<Rightarrow> string) \<Rightarrow> SortType \<Rightarrow> bool \<Rightarrow> less_func" where
  "sortLess_v1 ToLower sortType reverse a b =
     (if IsDir a \<noteq> IsDir b then IsDir a
      else (let result = (case sortType of
                            SortBySize \<Rightarrow> (Size b <s Size a)
                          | SortByName \<Rightarrow> (ToLower (Name a) < ToLower (Name b)))
            in if reverse then \<not> result else result))"

text \<open>
  \<^verbatim>\<open>sortFileTree(root, sortType, reverse)\<close>: return at once when there are no children;
  otherwise sort every child that is a directory, then sort the list of children.
  \<^verbatim>\<open>sort.Slice\<close> of the Go library is the parameter \<open>sort_Slice\<close>.
\<close>

fun sortFileTree :: "sorter \<Rightarrow> (string \<Rightarrow> string) \<Rightarrow> SortType \<Rightarrow> bool \<Rightarrow> FileInfo \<Rightarrow> FileInfo" where
  "sortFileTree sort_Slice ToLower sortType reverse (FileInfo name sz isDir path children) =
     (if children = [] then FileInfo name sz isDir path children
      else FileInfo name sz isDir path
             (sort_Slice (sortLess ToLower sortType reverse)
                (map (\<lambda>child. if IsDir child
                               then sortFileTree sort_Slice ToLower sortType reverse child
                               else child) children)))"

text \<open>
  What the Go library runs on a short slice (of at most 6 elements in every release,
  of at most 12 since Go 1.19),
  \<^verbatim>\<open>for i := a + 1; i < b; i++ { for j := i; j > a && less(j, j-1); j-- { swap(j, j-1) } }\<close>:
  \<open>insertStep\<close> is the inner loop, on the elements before position \<open>i\<close> in reverse
  order (nearest first).
\<close>

fun insertStep :: "('a \<Rightarrow> 'a \<Rightarrow> bool) \<Rightarrow> 'a \<Rightarrow> 'a list \<Rightarrow> 'a list" where
  "insertStep lt x [] = [x]"
| "insertStep lt x (y # ys) =
     (if lt x y then y # insertStep lt x ys else x # y # ys)"

definition insertionSort :: "('a \<Rightarrow> 'a \<Rightarrow> bool) \<Rightarrow> 'a list \<Rightarrow> 'a list" where
  "insertionSort lt xs = rev (foldl (\<lambda>acc x. insertStep lt x acc) [] xs)"

text \<open>
  \<^verbatim>\<open>strings.ToLower\<close> on ASCII bytes, for the examples: \<^verbatim>\<open>'A'..'Z'\<close> move up by
  \<^verbatim>\<open>'a' - 'A' = 32\<close>, every other byte stays.
\<close>

definition asciiToLower :: "string \<Rightarrow> string" where
  "asciiToLower s =
     map (\<lambda>c. if CHR ''A'' \<le> c \<and> c \<le> CHR ''Z'' then char_of (of_char c + (32::nat)) else c) s"

subsection \<open>What is asked of \<^verbatim>\<open>sort.Slice\<close>\<close>

text \<open>
  \<^verbatim>\<open>sort.Slice\<close> only swaps elements of the slice: the result is a permutation.
\<close>

definition permutes :: "sorter \<Rightarrow> bool" where
  "permutes srt = (\<forall>lt xs. mset (srt lt xs) = mset xs)"

text \<open>
  The Go documentation of \<^verbatim>\<open>Less\<close>: it must describe a transitive ordering (if
  \<^verbatim>\<open>Less(i, j)\<close> and \<^verbatim>\<open>Less(j, k)\<close> then \<^verbatim>\<open>Less(i, k)\<close>; if neither \<^verbatim>\<open>Less(i, j)\<close> nor
  \<^verbatim>\<open>Less(j, k)\<close> then not \<^verbatim>\<open>Less(i, k)\<close>), and no element sorts before itself. For such
  a comparator the result is sorted: no element is less than an earlier one.
\<close>

definition transitive_ordering :: "less_func \<Rightarrow> bool" where
  "transitive_ordering lt =
     ((\<forall>a. \<not> lt a a) \<and> (\<forall>a b c. lt a b \<and> lt b c \<longrightarrow> lt a c) \<and>
      (\<forall>a b c. \<not> lt a b \<and> \<not> lt b c \<longrightarrow> \<not> lt a c))"

definition sorts :: "sorter \<Rightarrow> bool" where
  "sorts srt =
     (\<forall>lt xs. transitive_ordering lt \<longrightarrow> sorted_wrt (\<lambda>a b. \<not> lt b a) (srt lt xs))"

text \<open>
  \<^verbatim>\<open>sort.Slice\<close> reads the elements through \<^verbatim>\<open>less\<close> only: renaming the elements by
  \<open>f\<close> and comparing through \<open>f\<close> gives the same arrangement.
\<close>

definition comparison_based :: "sorter \<Rightarrow> bool" where
  "comparison_based srt =
     (\<forall>lt f xs. srt lt (map f xs) = map f (srt (\<lambda>a b. lt (f a) (f b)) xs))"

subsection \<open>Notions the claims are stated with\<close>

text \<open>
  \<open>every_directory P root\<close>: \<open>P\<close> holds of the root and of every directory below it
  that is reached through directories (in a tree that \<^verbatim>\<open>buildFileTree\<close> returns, these
  are all nodes that have children).
\<close>

fun every_directory :: "(FileInfo \<Rightarrow> bool) \<Rightarrow> FileInfo \<Rightarrow> bool" where
  "every_directory P (FileInfo name sz isDir path children) =
     (P (FileInfo name sz isDir path children) \<and>
      (\<forall>child \<in> set children. IsDir child \<longrightarrow> every_directory P child))"

text \<open>
  A tree up to the order of the children: the fields of the node and the multiset
  of its children, each taken up to the order of its own children.
\<close>

datatype node_bag = Bag string "64 word" bool string "node_bag multiset"

fun bag_of :: "FileInfo \<Rightarrow> node_bag" where
  "bag_of (FileInfo name sz isDir path children) =
     Bag name sz isDir path (mset (map bag_of children))"

text \<open>
  The order of the name sort, as the specification words it: a directory never comes
  after a file, and two nodes of the same kind are in ascending order of their
  lower-cased names.
\<close>

definition name_order :: "(string \<Rightarrow> string) \<Rightarrow> FileInfo \<Rightarrow> FileInfo \<Rightarrow> bool" where
  "name_order ToLower a b =
     ((IsDir b \<longrightarrow> IsDir a) \<and> (IsDir a = IsDir b \<longrightarrow> ToLower (Name a) \<le> ToLower (Name b)))"

text \<open>The order of the size sort: descending by the signed 64-bit size.\<close>

definition size_order :: "FileInfo \<Rightarrow> FileInfo \<Rightarrow> bool" where
  "size_order a b = (sint (Size b) \<le> sint (Size a))"

text \<open>
  The other order of the two steps, as the specification words it: sort the node's
  own list of children first, then recurse into the children that are directories.
  The recursion runs over what \<open>sort_Slice\<close> returns, so it takes fuel (the depth of
  the tree is enough); \<open>None\<close> is running out of fuel.
\<close>

fun depth :: "FileInfo \<Rightarrow> nat" where
  "depth (FileInfo name sz isDir path children) = Suc (foldr max (map depth children) 0)"

fun sortFileTree_sortFirst ::
  "nat \<Rightarrow> sorter \<Rightarrow> (string \<Rightarrow> string) \<Rightarrow> SortType \<Rightarrow> bool \<Rightarrow> FileInfo \<Rightarrow> FileInfo option" where
  "sortFileTree_sortFirst 0 sort_Slice ToLower sortType reverse root = None"
| "sortFileTree_sortFirst (Suc fuel) sort_Slice ToLower sortType reverse root =
     (if Children root = [] then Some root
      else map_option (FileInfo (Name root) (Size root) (IsDir root) (Path root))
             (those (map (\<lambda>child. if IsDir child
                                   then sortFileTree_sortFirst fuel sort_Slice ToLower sortType reverse child
                                   else Some child)
                       (sort_Slice (sortLess ToLower sortType reverse) (Children root)))))"

definition example_tree :: FileInfo where
  "example_tree =
     FileInfo ''d'' 60 True ''/d''
       [FileInfo ''b.txt'' 10 False ''/d/b.txt'' [],
        FileInfo ''A'' 30 True ''/d/A''
          [FileInfo ''y'' 10 False ''/d/A/y'' [], FileInfo ''X'' 20 False ''/d/A/X'' []],
        FileInfo ''a.txt'' 20 False ''/d/a.txt'' []]"

section \<open>Formatting a size\<close>

text \<open>
  \<^verbatim>\<open>fmt.Sprintf("%d B", size)\<close>. The Go library takes the absolute value, writes its
  decimal digits from the last one backwards into a buffer (\<open>fmtDigits\<close>, the digit
  of \<open>u mod 10\<close> in front of what is written already, until \<open>u < 10\<close>), and puts a
  minus sign in front when the value was negative.
\<close>

definition digit :: "nat \<Rightarrow> char" where
  "digit d = char_of (48 + d)"

fun fmtDigits :: "nat \<Rightarrow> string \<Rightarrow> string" where
  "fmtDigits u buf =
     (if 10 \<le> u then fmtDigits (u div 10) (digit (u mod 10) # buf) else digit u # buf)"

definition decimal :: "nat \<Rightarrow> string" where
  "decimal u = fmtDigits u []"

definition fmtInteger :: "int \<Rightarrow> string" where
  "fmtInteger v =
     (let negative = (v < 0); u = nat \<bar>v\<bar>
      in if negative then CHR ''-'' # decimal u else decimal u)"

text \<open>
  \<^verbatim>\<open>float64(size)\<close>: the conversion is exact below \<open>2 ^ 53\<close>; above, the value is rounded
  to 53 significant bits, ties to the even mantissa. \<open>excess_bits m\<close> is the number
  of bits of \<open>m\<close> beyond 53. The value of \<open>float64 n\<close> is an integer, and dividing it
  by one of the units, a power of two, is exact in \<^verbatim>\<open>float64\<close>.
\<close>

fun excess_bits :: "nat \<Rightarrow> nat" where
  "excess_bits m = (if m < 2 ^ 53 then 0 else Suc (excess_bits (m div 2)))"

definition round_half_even :: "int \<Rightarrow> int \<Rightarrow> int" where
  "round_half_even a b =
     (let q = a div b; r = a mod b
      in if b < 2 * r \<or> (2 * r = b \<and> odd q) then q + 1 else q)"

definition float64 :: "int \<Rightarrow> int" where
  "float64 n = (let ulp = 2 ^ excess_bits (nat \<bar>n\<bar>) in sgn n * (round_half_even \<bar>n\<bar> ulp * ulp))"

text \<open>
  \<^verbatim>\<open>fmt.Sprintf("%.2f", x / unit)\<close> for \<open>0 \<le> x\<close>: Go prints the exact binary value
  rounded to two decimals, a tie going to the even digit. \<open>h\<close> is the number of
  hundredths.
\<close>

definition sprintf_2f :: "int \<Rightarrow> int \<Rightarrow> string" where
  "sprintf_2f x unit =
     (let h = nat (round_half_even (100 * x) unit)
      in decimal (h div 100) @ ''.'' @ [digit (h mod 100 div 10), digit (h mod 10)])"

text \<open>
  \<^verbatim>\<open>formatSize(size int64)\<close>, with the constants of the source (\<^verbatim>\<open>B = 1\<close>).
\<close>

definition KB :: int where "KB = 1024"
definition MB :: int where "MB = 1024 * KB"
definition GB :: int where "GB = 1024 * MB"
definition TB :: int where "TB = 1024 * GB"

definition formatSize :: "64 word \<Rightarrow> string" where
  "formatSize sz =
     (if TB \<le> sint sz then sprintf_2f (float64 (sint sz)) TB @ '' TB''
      else if GB \<le> sint sz then sprintf_2f (float64 (sint sz)) GB @ '' GB''
      else if MB \<le> sint sz then sprintf_2f (float64 (sint sz)) MB @ '' MB''
      else if KB \<le> sint sz then sprintf_2f (float64 (sint sz)) KB @ '' KB''
      else fmtInteger (sint sz) @ '' B'')"

section \<open>The console tree\<close>

text \<open>
  The three drawing strings of the source in UTF-8: \<open>connector_last\<close> is the corner,
  two dashes and a space; \<open>connector_mid\<close> the tee, two dashes and a space;
  \<open>bar_indent\<close> the vertical bar and three spaces.
\<close>

definition connector_last :: string where
  "connector_last = [CHR 0xE2, CHR 0x94, CHR 0x94, CHR 0xE2, CHR 0x94, CHR 0x80,
                     CHR 0xE2, CHR 0x94, CHR 0x80, CHR '' '']"

definition connector_mid :: string where
  "connector_mid = [CHR 0xE2, CHR 0x94, CHR 0x9C, CHR 0xE2, CHR 0x94, CHR 0x80,
                    CHR 0xE2, CHR 0x94, CHR 0x80, CHR '' '']"

definition bar_indent :: string where
  "bar_indent = [CHR 0xE2, CHR 0x94, CHR 0x82, CHR '' '', CHR '' '', CHR '' '']"

text \<open>
  \<^verbatim>\<open>printFileTree(node, prefix, isLast)\<close>: the result is the list of the strings that
  the calls of \<^verbatim>\<open>fmt.Printf\<close> write, in order, each with its newline.
  \<^verbatim>\<open>main\<close> prints the tree by \<^verbatim>\<open>printFileTree(root, "", true)\<close>.
\<close>

function printFileTree :: "FileInfo \<Rightarrow> string \<Rightarrow> bool \<Rightarrow> string list" where
  "printFileTree (FileInfo name sz isDir path children) prefix isLast =
     (let connector = (if prefix = '''' then '''' else if isLast then connector_last else connector_mid);
          sizeStr = formatSize sz;
          line = (if isDir then prefix @ connector @ name @ ''/ ('' @ sizeStr @ '')'' @ [CHR 0x0A]
                  else prefix @ connector @ name @ '' ('' @ sizeStr @ '')'' @ [CHR 0x0A])
      in line #
         (if children \<noteq> [] then
            (let newPrefix =
                   (if prefix = '''' then (if isLast then ''    '' else bar_indent)
                    else if isLast then prefix @ ''    ''
                    else prefix @ bar_indent)
             in concat (map (\<lambda>(i, child). printFileTree child newPrefix (i = length children - 1))
                          (enumerate 0 children)))
          else []))"
  by pat_completeness auto
termination
  by (relation "measure (\<lambda>(node, prefix, isLast). size node)")
     (auto simp: in_set_enumerate_eq less_Suc_eq_le intro!: size_list_estimation')

text \<open>
  The rendering as the specification words it. \<open>lasts\<close> lists, from the root down,
  whether each ancestor was the last sibling at its level (the root, alone at its level,
  is). The prefix of a line is four spaces for an ancestor that was last and the bar and
  three spaces for one that was not; the connector is empty at the root (no ancestors),
  the corner for a last sibling and the tee for any other.
\<close>

definition ancestor_prefix :: "bool list \<Rightarrow> string" where
  "ancestor_prefix lasts = concat (map (\<lambda>last. if last then ''    '' else bar_indent) lasts)"

function render :: "bool list \<Rightarrow> bool \<Rightarrow> FileInfo \<Rightarrow> string list" where
  "render lasts isLast (FileInfo name sz isDir path children) =
     (ancestor_prefix lasts
        @ (if lasts = [] then '''' else if isLast then connector_last else connector_mid)
        @ name @ (if isDir then ''/'' else '''') @ '' ('' @ formatSize sz @ '')'' @ [CHR 0x0A])
     # concat (map (\<lambda>(i, child). render (lasts @ [isLast]) (i = length children - 1) child)
                 (enumerate 0 children))"
  by pat_completeness auto
termination
  by (relation "measure (\<lambda>(lasts, isLast, node). size node)")
     (auto simp: in_set_enumerate_eq less_Suc_eq_le intro!: size_list_estimation')

section \<open>Building the tree\<close>

text \<open>
  What the walk sees of the file system at a path: \<^verbatim>\<open>os.Stat\<close> fails; or it reports a
  file of some size; or it reports a directory that \<^verbatim>\<open>os.ReadDir\<close> fails to list; or
  a directory with its entries, each a name and what is at that name. The tree is
  finite, as the walk of a real file system is: a path that grows too long makes
  \<^verbatim>\<open>os.Stat\<close> fail. The paths are
  built by \<^verbatim>\<open>filepath.Abs\<close>, \<^verbatim>\<open>filepath.Base\<close> and \<^verbatim>\<open>filepath.Join\<close>, parameters in the
  record \<open>filepath\<close>.
\<close>

datatype error = ErrAbs | ErrStat | ErrReadDir

datatype fsys = StatFails | RegularFile "64 word" | DirReadFails | Directory "(string \<times> fsys) list"

record filepath =
  Abs :: "string \<Rightarrow> error + string"
  Base :: "string \<Rightarrow> string"
  Join :: "string \<Rightarrow> string \<Rightarrow> string"

text \<open>
  \<^verbatim>\<open>buildFileTreeRecursive(node)\<close> returns the error, or the node filled in.
  \<open>walkEntries\<close> is its loop over the entries, with the state \<^verbatim>\<open>node.Children\<close> and
  \<^verbatim>\<open>totalSize\<close>: an entry whose subtree returns an error is passed over
  (\<^verbatim>\<open>continue\<close>).
\<close>

fun buildFileTreeRecursive :: "filepath \<Rightarrow> fsys \<Rightarrow> FileInfo \<Rightarrow> error + FileInfo"
  and walkEntries ::
    "filepath \<Rightarrow> string \<Rightarrow> (string \<times> fsys) list \<Rightarrow> FileInfo list \<times> 64 word \<Rightarrow> FileInfo list \<times> 64 word"
  where
  "buildFileTreeRecursive fp StatFails node = Inl ErrStat"
| "buildFileTreeRecursive fp (RegularFile n) node =
     Inr (FileInfo (Name node) n False (Path node) (Children node))"
| "buildFileTreeRecursive fp DirReadFails node = Inl ErrReadDir"
| "buildFileTreeRecursive fp (Directory entries) node =
     (case walkEntries fp (Path node) entries (Children node, 0) of
        (children, totalSize) \<Rightarrow> Inr (FileInfo (Name node) totalSize True (Path node) children))"
| "walkEntries fp nodePath [] (children, totalSize) = (children, totalSize)"
| "walkEntries fp nodePath ((entryName, sub) # entries) (children, totalSize) =
     (let childPath = Join fp nodePath entryName;
          child = FileInfo entryName 0 False childPath []
      in case buildFileTreeRecursive fp sub child of
           Inl err \<Rightarrow> walkEntries fp nodePath entries (children, totalSize)
         | Inr child' \<Rightarrow>
             walkEntries fp nodePath entries (children @ [child'], totalSize + Size child'))"

definition buildFileTree :: "filepath \<Rightarrow> fsys \<Rightarrow> string \<Rightarrow> error + FileInfo" where
  "buildFileTree fp disk rootPath =
     (case Abs fp rootPath of
        Inl err \<Rightarrow> Inl err
      | Inr absPath \<Rightarrow>
          (case buildFileTreeRecursive fp disk (FileInfo (Base fp absPath) 0 False absPath []) of
             Inl err \<Rightarrow> Inl err
           | Inr root \<Rightarrow> Inr root))"

text \<open>
  \<^verbatim>\<open>buildFileTree\<close> and \<^verbatim>\<open>calculateDirSize\<close> of the earlier revision \<^verbatim>\<open>main.go\<close>. It
  reads more of the file system: at a path, what \<^verbatim>\<open>os.Stat\<close> reports (is it a
  directory, and its size) and what \<^verbatim>\<open>os.ReadDir\<close> lists, \<open>None\<close> when the call fails;
  of an entry, its name, the size that \<^verbatim>\<open>entry.Info()\<close> reports (\<open>None\<close> when it
  fails), \<^verbatim>\<open>entry.IsDir()\<close>, and what is at the path of the entry. The function returns
  the pair of the source, the tree and the error, either of which may be \<^verbatim>\<open>nil\<close>.
\<close>

datatype fsys_v1 =
  Path_v1 (stat_v1: "(bool \<times> 64 word) option")
          (readDir_v1: "(string \<times> 64 word option \<times> bool \<times> fsys_v1) list option")

definition calculateDirSize :: "FileInfo \<Rightarrow> 64 word" where
  "calculateDirSize dir =
     (if \<not> IsDir dir then Size dir
      else foldl (\<lambda>totalSize child. totalSize + Size child) 0 (Children dir))"

fun buildFileTree_v1 :: "filepath \<Rightarrow> fsys_v1 \<Rightarrow> string \<Rightarrow> FileInfo option \<times> error option"
  and walkEntries_v1 ::
    "filepath \<Rightarrow> string \<Rightarrow> (string \<times> 64 word option \<times> bool \<times> fsys_v1) list \<Rightarrow>
       FileInfo list \<Rightarrow> FileInfo list"
  where
  "buildFileTree_v1 fp (Path_v1 st listing) dirPath =
     (case st of
        None \<Rightarrow> (None, Some ErrStat)
      | Some (infoIsDir, infoSize) \<Rightarrow>
          (let root = FileInfo (Base fp dirPath) infoSize infoIsDir dirPath []
           in if \<not> infoIsDir then (Some root, None)
              else (case listing of
                      None \<Rightarrow> (Some root, Some ErrReadDir)
                    | Some entries \<Rightarrow>
                        (let children = walkEntries_v1 fp dirPath entries (Children root);
                             root' = FileInfo (Name root) (Size root) (IsDir root) (Path root) children
                         in (Some (FileInfo (Name root') (calculateDirSize root') (IsDir root')
                                     (Path root') (Children root')), None)))))"
| "walkEntries_v1 fp dirPath [] children = children"
| "walkEntries_v1 fp dirPath ((entryName, entryInfo, entryIsDir, sub) # entries) children =
     (let childPath = Join fp dirPath entryName
      in case entryInfo of
           None \<Rightarrow> walkEntries_v1 fp dirPath entries children
         | Some childSize \<Rightarrow>
             (let child = FileInfo entryName childSize entryIsDir childPath [];
                  child' =
                    (if entryIsDir then
                       (case buildFileTree_v1 fp sub childPath of
                          (Some subTree, None) \<Rightarrow>
                            (let c = FileInfo (Name child) (Size child) (IsDir child) (Path child)
                                       (Children subTree)
                             in FileInfo (Name c) (calculateDirSize c) (IsDir c) (Path c) (Children c))
                        | _ \<Rightarrow> child)
                     else child)
              in walkEntries_v1 fp dirPath entries (children @ [child'])))"

text \<open>
  The notions of the claims on the walk: \<open>every_node\<close> for a property of all nodes of
  a tree, \<open>size_is_sum\<close> for the invariant of a directory node, \<open>fails\<close> for an entry
  whose \<^verbatim>\<open>os.Stat\<close> or \<^verbatim>\<open>os.ReadDir\<close> fails, and \<open>newChild\<close> for the node that the
  loop makes for an entry before it recurses.
\<close>

fun every_node :: "(FileInfo \<Rightarrow> bool) \<Rightarrow> FileInfo \<Rightarrow> bool" where
  "every_node P (FileInfo name sz isDir path children) =
     (P (FileInfo name sz isDir path children) \<and> (\<forall>child \<in> set children. every_node P child))"

definition size_is_sum :: "FileInfo \<Rightarrow> bool" where
  "size_is_sum node = (IsDir node \<longrightarrow> Size node = sum_list (map Size (Children node)))"

definition fails :: "fsys \<Rightarrow> bool" where
  "fails sub = (sub = StatFails \<or> sub = DirReadFails)"

definition newChild :: "filepath \<Rightarrow> string \<Rightarrow> string \<Rightarrow> FileInfo" where
  "newChild fp nodePath entryName = FileInfo entryName 0 False (Join fp nodePath entryName) []"

text \<open>The value that a string of decimal digits denotes.\<close>

definition value_of_digits :: "string \<Rightarrow> nat" where
  "value_of_digits s = foldl (\<lambda>v c. 10 * v + (of_char c - 48)) 0 s"

text \<open>Examples: paths in the Unix way, and a directory with two entries that fail.\<close>

definition unixPath :: filepath where
  "unixPath =
     \<lparr> Abs = (\<lambda>p. Inr p),
       Base = (\<lambda>p. rev (takeWhile (\<lambda>c. c \<noteq> CHR ''/'') (rev p))),
       Join = (\<lambda>dir name. dir @ ''/'' @ name) \<rparr>"

definition example_entries :: "(string \<times> fsys) list" where
  "example_entries =
     [(''b.txt'', RegularFile 10),
      (''broken'', StatFails),
      (''A'', Directory [(''y'', RegularFile 10), (''gone'', StatFails), (''X'', RegularFile 20)]),
      (''locked'', DirReadFails),
      (''a.txt'', RegularFile 20)]"

definition example_disk_v1 :: fsys_v1 where
  "example_disk_v1 =
     Path_v1 (Some (True, 4096))
       (Some [(''b.txt'', Some 10, False, Path_v1 (Some (False, 10)) None),
              (''locked'', Some 4096, True, Path_v1 (Some (True, 4096)) None),
              (''a.txt'', Some 20, False, Path_v1 (Some (False, 20)) None)])"

section \<open>Insertion sort meets what is asked of \<^verbatim>\<open>sort.Slice\<close>\<close>

lemma mset_insertStep: "mset (insertStep lt x ys) = add_mset x (mset ys)"
  by (induction ys) auto

lemma mset_foldl_insertStep:
  "mset (foldl (\<lambda>acc x. insertStep lt x acc) acc xs) = mset acc + mset xs"
  by (induction xs arbitrary: acc) (auto simp: mset_insertStep)

lemma mset_insertionSort: "mset (insertionSort lt xs) = mset xs"
  by (simp add: insertionSort_def mset_foldl_insertStep)

lemma permutes_insertionSort: "permutes insertionSort"
  by (simp add: permutes_def mset_insertionSort)

lemma set_insertStep: "set (insertStep lt x ys) = insert x (set ys)"
  by (induction ys) auto

lemma sorted_insertStep:
  assumes "transitive_ordering lt" "sorted_wrt (\<lambda>a b. \<not> lt a b) ys"
  shows "sorted_wrt (\<lambda>a b. \<not> lt a b) (insertStep lt x ys)"
  using assms(2)
proof (induction ys)
  case Nil
  then show ?case by simp
next
  case (Cons y ys)
  from assms(1) have asym: "\<And>a b. lt a b \<Longrightarrow> \<not> lt b a"
    and ntr: "\<And>a b c. \<not> lt a b \<Longrightarrow> \<not> lt b c \<Longrightarrow> \<not> lt a c"
    unfolding transitive_ordering_def by blast+
  show ?case
  proof (cases "lt x y")
    case True
    with Cons asym show ?thesis by (auto simp: set_insertStep)
  next
    case False
    with Cons ntr show ?thesis by auto
  qed
qed

lemma sorted_foldl_insertStep:
  assumes "transitive_ordering lt" "sorted_wrt (\<lambda>a b. \<not> lt a b) acc"
  shows "sorted_wrt (\<lambda>a b. \<not> lt a b) (foldl (\<lambda>acc x. insertStep lt x acc) acc xs)"
  using assms(2) by (induction xs arbitrary: acc) (auto simp: sorted_insertStep[OF assms(1)])

lemma sorts_insertionSort: "sorts insertionSort"
  unfolding sorts_def insertionSort_def
  using sorted_foldl_insertStep[of _ "[]"] by (auto simp: sorted_wrt_rev)

lemma insertStep_map:
  "insertStep lt (f x) (map f ys) = map f (insertStep (\<lambda>a b. lt (f a) (f b)) x ys)"
  by (induction ys) auto

lemma foldl_insertStep_map:
  "foldl (\<lambda>acc x. insertStep lt x acc) (map f acc) (map f xs) =
   map f (foldl (\<lambda>acc x. insertStep (\<lambda>a b. lt (f a) (f b)) x acc) acc xs)"
  by (induction xs arbitrary: acc) (auto simp: insertStep_map)

lemma comparison_based_insertionSort: "comparison_based insertionSort"
proof -
  have "insertionSort lt (map f xs) = map f (insertionSort (\<lambda>a b. lt (f a) (f b)) xs)"
    for lt :: "'b \<Rightarrow> 'b \<Rightarrow> bool" and f :: "'a \<Rightarrow> 'b" and xs
    using foldl_insertStep_map[of lt f "[]" xs] by (simp add: insertionSort_def rev_map)
  then show ?thesis unfolding comparison_based_def by blast
qed

section \<open>Sorting only permutes\<close>

lemma sortFileTree_fields [simp]:
  "Name (sortFileTree srt lower st rv t) = Name t"
  "Size (sortFileTree srt lower st rv t) = Size t"
  "IsDir (sortFileTree srt lower st rv t) = IsDir t"
  "Path (sortFileTree srt lower st rv t) = Path t"
  by (cases t; simp)+

lemma permutes_set: "permutes srt \<Longrightarrow> set (srt lt xs) = set xs"
  unfolding permutes_def by (metis mset_eq_setD)

lemma permutes_image_mset:
  "permutes srt \<Longrightarrow> mset (map f (srt lt xs)) = mset (map f xs)"
  by (simp add: permutes_def)

lemma bag_of_sortFileTree:
  assumes p: "permutes srt"
  shows "bag_of (sortFileTree srt lower st rv t) = bag_of t"
proof (induction t)
  case (FileInfo name sz isDir path children)
  let ?g = "\<lambda>child. if IsDir child then sortFileTree srt lower st rv child else child"
  have "bag_of (?g c) = bag_of c" if "c \<in> set children" for c
    using FileInfo that by simp
  then have m: "map bag_of (map ?g children) = map bag_of children"
    by (induction children) simp_all
  have "mset (map bag_of (srt (sortLess lower st rv) (map ?g children)))
      = mset (map bag_of (map ?g children))"
    by (rule permutes_image_mset[OF p])
  also have "\<dots> = mset (map bag_of children)"
    by (simp only: m)
  finally show ?case by simp
qed

text \<open>
  C9. \<^verbatim>\<open>sortFileTree\<close> only permutes: for every tree, sort key and reverse flag, the
  sorted tree and the tree before are the same up to the order of the children lists
  (every node keeps its \<open>Name\<close>, \<open>Size\<close>, \<open>IsDir\<close> and \<open>Path\<close>, and every list of
  children holds the same multiset of nodes, each again up to the order of its own
  children); in particular the root keeps its four fields and the number of its
  children. \<^verbatim>\<open>sort.Slice\<close> is any routine that permutes.
\<close>

theorem sortFileTree_only_permutes:
  assumes "permutes sort_Slice"
  shows "bag_of (sortFileTree sort_Slice ToLower sortType reverse root) = bag_of root
    \<and> Name (sortFileTree sort_Slice ToLower sortType reverse root) = Name root
    \<and> Size (sortFileTree sort_Slice ToLower sortType reverse root) = Size root
    \<and> IsDir (sortFileTree sort_Slice ToLower sortType reverse root) = IsDir root
    \<and> Path (sortFileTree sort_Slice ToLower sortType reverse root) = Path root"
  using bag_of_sortFileTree[OF assms] by simp

theorem sortFileTree_only_permutes_witness:
  "bag_of (sortFileTree insertionSort asciiToLower SortBySize True example_tree)
     = bag_of example_tree
   \<and> Path (sortFileTree insertionSort asciiToLower SortBySize True example_tree) = ''/d''"
  using sortFileTree_only_permutes[OF permutes_insertionSort,
      of asciiToLower SortBySize True example_tree]
  by (simp add: example_tree_def)

section \<open>The comparator and the sorted lists\<close>

lemma transitive_ordering_name: "transitive_ordering (sortLess lower SortByName False)"
  unfolding transitive_ordering_def sortLess_def by (auto simp: Let_def)

lemma transitive_ordering_size: "transitive_ordering (sortLess lower SortBySize False)"
  unfolding transitive_ordering_def sortLess_def by (auto simp: Let_def word_sless_alt)

lemma every_directory_sorted:
  assumes p: "permutes srt" and s: "\<And>xs. Q (srt (sortLess lower st rv) xs)" and e: "Q []"
  shows "every_directory (\<lambda>n. Q (Children n)) (sortFileTree srt lower st rv t)"
proof (induction t)
  case (FileInfo name sz isDir path children)
  show ?case
  proof (cases "children = []")
    case True
    then show ?thesis using e by simp
  next
    case False
    then show ?thesis using FileInfo s by (auto simp: permutes_set[OF p])
  qed
qed

lemma not_less_name_order:
  "\<not> sortLess lower SortByName False b a \<Longrightarrow> name_order lower a b"
  by (auto simp: sortLess_def name_order_def Let_def split: if_splits)

lemma not_less_size_order:
  "\<not> sortLess lower SortBySize False b a \<Longrightarrow> size_order a b"
  by (auto simp: sortLess_def size_order_def word_sless_alt)

lemma sorted_by_name:
  assumes "sorts srt"
  shows "sorted_wrt (name_order lower) (srt (sortLess lower SortByName False) xs)"
proof -
  from assms have "sorted_wrt (\<lambda>a b. \<not> sortLess lower SortByName False b a)
      (srt (sortLess lower SortByName False) xs)"
    unfolding sorts_def using transitive_ordering_name by blast
  then show ?thesis
    by (rule sorted_wrt_mono_rel[rotated]) (simp add: not_less_name_order)
qed

lemma sorted_by_size:
  assumes "sorts srt"
  shows "sorted_wrt size_order (srt (sortLess lower SortBySize False) xs)"
proof -
  from assms have "sorted_wrt (\<lambda>a b. \<not> sortLess lower SortBySize False b a)
      (srt (sortLess lower SortBySize False) xs)"
    unfolding sorts_def using transitive_ordering_size by blast
  then show ?thesis
    by (rule sorted_wrt_mono_rel[rotated]) (simp add: not_less_size_order)
qed

lemma sortLess_sortFileTree:
  "sortLess lower st rv (if IsDir a then sortFileTree srt lower st' rv' a else a)
      (if IsDir b then sortFileTree srt lower st' rv' b else b) = sortLess lower st rv a b"
  by (simp add: sortLess_def split: SortType.split)

lemma those_map_Some: "those (map (\<lambda>x. Some (g x)) xs) = Some (map g xs)"
  by (induction xs) auto

lemma depth_child: "c \<in> set cs \<Longrightarrow> depth c \<le> foldr max (map depth cs) 0"
  by (induction cs) auto

lemma sort_commutes:
  assumes c: "comparison_based srt"
  shows "srt (sortLess lower st rv)
           (map (\<lambda>child. if IsDir child then sortFileTree srt lower st rv child else child) cs)
       = map (\<lambda>child. if IsDir child then sortFileTree srt lower st rv child else child)
           (srt (sortLess lower st rv) cs)"
proof -
  let ?g = "\<lambda>child. if IsDir child then sortFileTree srt lower st rv child else child"
  have "srt (sortLess lower st rv) (map ?g cs)
      = map ?g (srt (\<lambda>a b. sortLess lower st rv (?g a) (?g b)) cs)"
    using c unfolding comparison_based_def by blast
  moreover have "(\<lambda>a b. sortLess lower st rv (?g a) (?g b)) = sortLess lower st rv"
    by (intro ext) (rule sortLess_sortFileTree)
  ultimately show ?thesis by simp
qed

lemma sortFirst_eq:
  assumes p: "permutes srt" and c: "comparison_based srt"
  shows "depth t \<le> fuel \<Longrightarrow>
    sortFileTree_sortFirst fuel srt lower st rv t = Some (sortFileTree srt lower st rv t)"
proof (induction fuel arbitrary: t)
  case 0
  then show ?case by (cases t) simp
next
  case (Suc fuel)
  obtain name sz isDir path children where t: "t = FileInfo name sz isDir path children"
    by (cases t)
  let ?lt = "sortLess lower st rv"
  let ?g = "\<lambda>child. if IsDir child then sortFileTree srt lower st rv child else child"
  show ?case
  proof (cases "children = []")
    case True
    then show ?thesis by (simp add: t)
  next
    case False
    have sub: "depth x \<le> fuel" if "x \<in> set children" for x
      using depth_child[OF that] Suc.prems by (simp add: t)
    have "(if IsDir x then sortFileTree_sortFirst fuel srt lower st rv x else Some x) = Some (?g x)"
      if "x \<in> set (srt ?lt children)" for x
      using that sub Suc.IH by (simp add: permutes_set[OF p])
    then have "map (\<lambda>child. if IsDir child
               then sortFileTree_sortFirst fuel srt lower st rv child else Some child)
            (srt ?lt children) = map (\<lambda>x. Some (?g x)) (srt ?lt children)"
      by (intro map_cong refl)
    then have "those (map (\<lambda>child. if IsDir child
               then sortFileTree_sortFirst fuel srt lower st rv child else Some child)
            (srt ?lt children)) = Some (map ?g (srt ?lt children))"
      by (simp only: those_map_Some)
    then show ?thesis using False
      by (simp add: t sort_commutes[OF c] del: map_eq_conv)
  qed
qed

lemma sorted3_unique:
  assumes m: "mset ys = mset [a, b, c]"
    and s: "sorted_wrt R ys"
    and r: "\<not> R b a" "\<not> R c a" "\<not> R c b"
  shows "ys = [a, b, c]"
proof -
  from m have "length ys = length [a, b, c]" by (rule mset_eq_length)
  then obtain y1 y2 y3 where ys: "ys = [y1, y2, y3]"
    by (auto simp: length_Suc_conv)
  from s have R: "R y1 y2" "R y1 y3" "R y2 y3" by (simp_all add: ys)
  from m have "mset [y1, y2, y3] = mset [a, b, c]" by (simp add: ys)
  then have "(y1, y2, y3) \<in> {(a,b,c), (a,c,b), (b,a,c), (b,c,a), (c,a,b), (c,b,a)}"
    by (auto simp: add_eq_conv_ex)
  with R r show ?thesis by (auto simp: ys)
qed

lemma asciiToLower_ex:
  "asciiToLower ''A'' = ''a''" "asciiToLower ''a.txt'' = ''a.txt''"
  "asciiToLower ''b.txt'' = ''b.txt''"
  by code_simp+

lemma name_example:
  assumes p: "permutes srt" and s: "sorts srt"
  shows "sortFileTree srt asciiToLower SortByName False
           (FileInfo n sz d p
              [FileInfo ''b.txt'' s1 False p1 [], FileInfo ''A'' s2 True p2 [],
               FileInfo ''a.txt'' s3 False p3 []])
         = FileInfo n sz d p
              [FileInfo ''A'' s2 True p2 [], FileInfo ''a.txt'' s3 False p3 [],
               FileInfo ''b.txt'' s1 False p1 []]"
proof -
  let ?lt = "sortLess asciiToLower SortByName False"
  let ?b = "FileInfo ''b.txt'' s1 False p1 []" and ?A = "FileInfo ''A'' s2 True p2 []"
  and ?a = "FileInfo ''a.txt'' s3 False p3 []"
  have m: "mset (srt ?lt [?b, ?A, ?a]) = mset [?A, ?a, ?b]"
    using p by (simp add: permutes_def)
  have so: "sorted_wrt (\<lambda>x y. \<not> ?lt y x) (srt ?lt [?b, ?A, ?a])"
    using s transitive_ordering_name unfolding sorts_def by blast
  have "srt ?lt [?b, ?A, ?a] = [?A, ?a, ?b]"
    by (rule sorted3_unique[OF m so]) (simp_all add: sortLess_def asciiToLower_ex)
  then show ?thesis by simp
qed

lemma sort_child_leaf:
  "(if c then sortFileTree srt lower st rv (FileInfo n s d p []) else FileInfo n s d p [])
     = FileInfo n s d p []"
  by simp

lemma size_example:
  assumes p: "permutes srt" and s: "sorts srt"
  shows "sortFileTree srt lower SortBySize False
           (FileInfo n sz d p
              [FileInfo nx 10 dx px [], FileInfo ny 30 dy py [], FileInfo nz 20 dz pz []])
         = FileInfo n sz d p
              [FileInfo ny 30 dy py [], FileInfo nz 20 dz pz [], FileInfo nx 10 dx px []]"
proof -
  let ?lt = "sortLess lower SortBySize False"
  let ?x = "FileInfo nx 10 dx px []" and ?y = "FileInfo ny 30 dy py []"
  and ?z = "FileInfo nz 20 dz pz []"
  have m: "mset (srt ?lt [?x, ?y, ?z]) = mset [?y, ?z, ?x]"
    using p by (simp add: permutes_def)
  have so: "sorted_wrt (\<lambda>a b. \<not> ?lt b a) (srt ?lt [?x, ?y, ?z])"
    using s transitive_ordering_size unfolding sorts_def by blast
  have "srt ?lt [?x, ?y, ?z] = [?y, ?z, ?x]"
    by (rule sorted3_unique[OF m so]) (simp_all add: sortLess_def)
  then show ?thesis by (simp add: sort_child_leaf split del: if_split)
qed

lemma size_example_reverse:
  "sortFileTree insertionSort lower SortBySize True
           (FileInfo n sz d p
              [FileInfo nx 10 dx px [], FileInfo ny 30 dy py [], FileInfo nz 20 dz pz []])
         = FileInfo n sz d p
              [FileInfo nx 10 dx px [], FileInfo nz 20 dz pz [], FileInfo ny 30 dy py []]"
  by (simp add: sort_child_leaf sortLess_def insertionSort_def split del: if_split)

section \<open>The claims on sorting\<close>

text \<open>
  C2. With the name key and \<^verbatim>\<open>reverse = false\<close>, the children of the root and of every
  directory of the sorted tree are in \<open>name_order\<close>: all directories before all files
  whatever the names, and within directories and within files the lower-cased names
  ascending. In particular the siblings \<^verbatim>\<open>b.txt\<close>, \<^verbatim>\<open>A/\<close>, \<^verbatim>\<open>a.txt\<close> come out as
  \<^verbatim>\<open>A/\<close>, \<^verbatim>\<open>a.txt\<close>, \<^verbatim>\<open>b.txt\<close>. \<^verbatim>\<open>sort.Slice\<close> is any routine that permutes and that
  sorts by a transitive ordering.
\<close>

theorem name_sort_directories_first:
  assumes "permutes sort_Slice" "sorts sort_Slice"
  shows "every_directory (\<lambda>n. sorted_wrt (name_order ToLower) (Children n))
           (sortFileTree sort_Slice ToLower SortByName False root)
    \<and> sortFileTree sort_Slice asciiToLower SortByName False
           (FileInfo n sz d p
              [FileInfo ''b.txt'' s1 False p1 [], FileInfo ''A'' s2 True p2 [],
               FileInfo ''a.txt'' s3 False p3 []])
         = FileInfo n sz d p
              [FileInfo ''A'' s2 True p2 [], FileInfo ''a.txt'' s3 False p3 [],
               FileInfo ''b.txt'' s1 False p1 []]"
proof (intro conjI)
  show "every_directory (\<lambda>n. sorted_wrt (name_order ToLower) (Children n))
           (sortFileTree sort_Slice ToLower SortByName False root)"
    by (rule every_directory_sorted[OF assms(1)]) (simp_all add: sorted_by_name[OF assms(2)])
qed (rule name_example[OF assms])

theorem name_sort_directories_first_witness:
  "permutes insertionSort \<and> sorts insertionSort
   \<and> every_directory (\<lambda>n. sorted_wrt (name_order asciiToLower) (Children n))
        (sortFileTree insertionSort asciiToLower SortByName False example_tree)
   \<and> sortFileTree insertionSort asciiToLower SortByName False example_tree
      = FileInfo ''d'' 60 True ''/d''
       [FileInfo ''A'' 30 True ''/d/A''
          [FileInfo ''X'' 20 False ''/d/A/X'' [], FileInfo ''y'' 10 False ''/d/A/y'' []],
        FileInfo ''a.txt'' 20 False ''/d/a.txt'' [],
        FileInfo ''b.txt'' 10 False ''/d/b.txt'' []]"
  using name_sort_directories_first[OF permutes_insertionSort sorts_insertionSort,
      where ToLower = asciiToLower and root = example_tree]
    permutes_insertionSort sorts_insertionSort
  by (simp add: example_tree_def sortLess_def insertionSort_def asciiToLower_def char_of_def)

text \<open>
  C3. With the size key the comparator looks at the sizes only (no priority of
  directories or files), and with \<^verbatim>\<open>reverse = false\<close> the children of the root and of
  every directory of the sorted tree are in descending order of size. Siblings of
  sizes 10, 30, 20, of any kind, come out as 30, 20, 10; with \<^verbatim>\<open>reverse = true\<close> they
  come out as 10, 20, 30. The reversed comparator holds of two equal sizes both ways,
  which is not an ordering as \<^verbatim>\<open>sort.Slice\<close> asks for, so the reversed example is run
  with the insertion sort that the Go library uses on slices of this length.
\<close>

theorem size_sort_descending:
  assumes "permutes sort_Slice" "sorts sort_Slice"
  shows "every_directory (\<lambda>n. sorted_wrt size_order (Children n))
           (sortFileTree sort_Slice ToLower SortBySize False root)
    \<and> sortLess ToLower SortBySize reverse a b
        = (if reverse then \<not> Size b <s Size a else Size b <s Size a)
    \<and> sortFileTree sort_Slice ToLower SortBySize False
           (FileInfo n sz d p
              [FileInfo nx 10 dx px [], FileInfo ny 30 dy py [], FileInfo nz 20 dz pz []])
         = FileInfo n sz d p
              [FileInfo ny 30 dy py [], FileInfo nz 20 dz pz [], FileInfo nx 10 dx px []]
    \<and> sortFileTree insertionSort ToLower SortBySize True
           (FileInfo n sz d p
              [FileInfo nx 10 dx px [], FileInfo ny 30 dy py [], FileInfo nz 20 dz pz []])
         = FileInfo n sz d p
              [FileInfo nx 10 dx px [], FileInfo nz 20 dz pz [], FileInfo ny 30 dy py []]"
proof (intro conjI)
  show "every_directory (\<lambda>n. sorted_wrt size_order (Children n))
           (sortFileTree sort_Slice ToLower SortBySize False root)"
    by (rule every_directory_sorted[OF assms(1)]) (simp_all add: sorted_by_size[OF assms(2)])
  show "sortLess ToLower SortBySize reverse a b
        = (if reverse then \<not> Size b <s Size a else Size b <s Size a)"
    by (simp add: sortLess_def)
qed (rule size_example[OF assms] size_example_reverse)+

theorem size_sort_descending_witness:
  "permutes insertionSort \<and> sorts insertionSort
   \<and> every_directory (\<lambda>n. sorted_wrt size_order (Children n))
        (sortFileTree insertionSort asciiToLower SortBySize False example_tree)
   \<and> sortFileTree insertionSort asciiToLower SortBySize False example_tree
      = FileInfo ''d'' 60 True ''/d''
       [FileInfo ''A'' 30 True ''/d/A''
          [FileInfo ''X'' 20 False ''/d/A/X'' [], FileInfo ''y'' 10 False ''/d/A/y'' []],
        FileInfo ''a.txt'' 20 False ''/d/a.txt'' [],
        FileInfo ''b.txt'' 10 False ''/d/b.txt'' []]"
  using size_sort_descending[OF permutes_insertionSort sorts_insertionSort,
      where ToLower = asciiToLower and root = example_tree]
    permutes_insertionSort sorts_insertionSort
  by (simp add: example_tree_def sortLess_def insertionSort_def)

text \<open>
  C8. For every tree and sort policy, sorting a node's own children before recursing
  into them (\<open>sortFileTree_sortFirst\<close>, with fuel for at least the depth of the tree)
  gives exactly the tree that recursing first and sorting afterwards
  (\<open>sortFileTree\<close>) gives. \<^verbatim>\<open>sort.Slice\<close> is any routine that permutes and that reads
  the elements through the comparator only.
\<close>

theorem sort_before_or_after_recursing:
  assumes "permutes sort_Slice" "comparison_based sort_Slice" "depth root \<le> fuel"
  shows "sortFileTree_sortFirst fuel sort_Slice ToLower sortType reverse root
         = Some (sortFileTree sort_Slice ToLower sortType reverse root)"
  using sortFirst_eq[OF assms] .

theorem sort_before_or_after_recursing_witness:
  "permutes insertionSort \<and> comparison_based insertionSort \<and> depth example_tree \<le> 3
   \<and> sortFileTree_sortFirst 3 insertionSort asciiToLower SortBySize True example_tree
      = Some (sortFileTree insertionSort asciiToLower SortBySize True example_tree)
   \<and> sortFileTree insertionSort asciiToLower SortBySize True example_tree
      = FileInfo ''d'' 60 True ''/d''
       [FileInfo ''b.txt'' 10 False ''/d/b.txt'' [],
        FileInfo ''a.txt'' 20 False ''/d/a.txt'' [],
        FileInfo ''A'' 30 True ''/d/A''
          [FileInfo ''y'' 10 False ''/d/A/y'' [], FileInfo ''X'' 20 False ''/d/A/X'' []]]"
proof -
  have d: "depth example_tree \<le> 3" by (simp add: example_tree_def)
  have e: "sortFileTree insertionSort asciiToLower SortBySize True example_tree
      = FileInfo ''d'' 60 True ''/d''
       [FileInfo ''b.txt'' 10 False ''/d/b.txt'' [],
        FileInfo ''a.txt'' 20 False ''/d/a.txt'' [],
        FileInfo ''A'' 30 True ''/d/A''
          [FileInfo ''y'' 10 False ''/d/A/y'' [], FileInfo ''X'' 20 False ''/d/A/X'' []]]"
    by (simp add: example_tree_def sortLess_def insertionSort_def)
  show ?thesis
    using sort_before_or_after_recursing[OF permutes_insertionSort
        comparison_based_insertionSort d, of asciiToLower SortBySize True]
      permutes_insertionSort comparison_based_insertionSort d e
    by simp
qed

text \<open>
  C4, as claimed, fails: under the name key the directories-first rule returns before
  the reverse flag is looked at. For the siblings \<^verbatim>\<open>a.txt\<close> and \<^verbatim>\<open>A/\<close> the sort puts
  \<^verbatim>\<open>A/\<close> first with \<^verbatim>\<open>reverse = true\<close> and with \<^verbatim>\<open>reverse = false\<close> alike, and the
  comparator orders \<^verbatim>\<open>A/\<close> before \<^verbatim>\<open>a.txt\<close> under both.
\<close>

theorem reverse_name_sort_keeps_directories_first:
  "sortFileTree insertionSort asciiToLower SortByName True
     (FileInfo ''d'' 3 True ''/d''
        [FileInfo ''a.txt'' 1 False ''/d/a.txt'' [], FileInfo ''A'' 2 True ''/d/A'' []])
   = FileInfo ''d'' 3 True ''/d''
        [FileInfo ''A'' 2 True ''/d/A'' [], FileInfo ''a.txt'' 1 False ''/d/a.txt'' []]
   \<and> sortFileTree insertionSort asciiToLower SortByName False
     (FileInfo ''d'' 3 True ''/d''
        [FileInfo ''a.txt'' 1 False ''/d/a.txt'' [], FileInfo ''A'' 2 True ''/d/A'' []])
   = FileInfo ''d'' 3 True ''/d''
        [FileInfo ''A'' 2 True ''/d/A'' [], FileInfo ''a.txt'' 1 False ''/d/a.txt'' []]
   \<and> sortLess asciiToLower SortByName True
        (FileInfo ''A'' 2 True ''/d/A'' []) (FileInfo ''a.txt'' 1 False ''/d/a.txt'' [])
   \<and> sortLess asciiToLower SortByName False
        (FileInfo ''A'' 2 True ''/d/A'' []) (FileInfo ''a.txt'' 1 False ''/d/a.txt'' [])"
  by (simp add: sortLess_def insertionSort_def)

text \<open>
  C4, amended. The reverse flag negates the key comparison only: under the size key
  the comparator with \<^verbatim>\<open>reverse = true\<close> answers the opposite of the comparator with
  \<^verbatim>\<open>reverse = false\<close> for every pair of siblings; under the name key it does so for
  two siblings of the same kind, while a directory is ordered before a file, and not
  the file before the directory, whatever the reverse flag.
\<close>

theorem reverse_negates_key_comparison_only:
  "sortLess ToLower SortBySize True a b = (\<not> sortLess ToLower SortBySize False a b)
   \<and> (IsDir a = IsDir b \<longrightarrow>
        sortLess ToLower SortByName True a b = (\<not> sortLess ToLower SortByName False a b))
   \<and> (IsDir a \<and> \<not> IsDir b \<longrightarrow>
        sortLess ToLower SortByName reverse a b \<and> \<not> sortLess ToLower SortByName reverse b a)"
  by (simp add: sortLess_def)

theorem reverse_negates_key_comparison_only_witness:
  "sortLess asciiToLower SortBySize True
       (FileInfo ''x'' 10 False ''/x'' []) (FileInfo ''y'' 30 True ''/y'' [])
   \<and> \<not> sortLess asciiToLower SortBySize False
       (FileInfo ''x'' 10 False ''/x'' []) (FileInfo ''y'' 30 True ''/y'' [])
   \<and> sortLess asciiToLower SortByName True
       (FileInfo ''b.txt'' 10 False ''/b.txt'' []) (FileInfo ''a.txt'' 30 False ''/a.txt'' [])
   \<and> \<not> sortLess asciiToLower SortByName False
       (FileInfo ''b.txt'' 10 False ''/b.txt'' []) (FileInfo ''a.txt'' 30 False ''/a.txt'' [])
   \<and> sortLess asciiToLower SortByName True
       (FileInfo ''B'' 10 True ''/B'' []) (FileInfo ''a.txt'' 30 False ''/a.txt'' [])
   \<and> \<not> sortLess asciiToLower SortByName True
       (FileInfo ''a.txt'' 30 False ''/a.txt'' []) (FileInfo ''B'' 10 True ''/B'' [])"
  using reverse_negates_key_comparison_only[of asciiToLower
      "FileInfo ''x'' 10 False ''/x'' []" "FileInfo ''y'' 30 True ''/y'' []"]
    reverse_negates_key_comparison_only[of asciiToLower
      "FileInfo ''b.txt'' 10 False ''/b.txt'' []" "FileInfo ''a.txt'' 30 False ''/a.txt'' []"]
    reverse_negates_key_comparison_only[of asciiToLower
      "FileInfo ''B'' 10 True ''/B'' []" "FileInfo ''a.txt'' 30 False ''/a.txt'' []" True]
  by (simp add: sortLess_def asciiToLower_def char_of_def)

section \<open>The size format\<close>

declare fmtDigits.simps [simp del]
declare excess_bits.simps [simp del]

lemma fmtDigits_append: "fmtDigits u buf = fmtDigits u [] @ buf"
proof (induction u arbitrary: buf rule: less_induct)
  case (less u)
  show ?case
  proof (cases "10 \<le> u")
    case True
    then have lt: "u div 10 < u" by simp
    have "fmtDigits u buf = fmtDigits (u div 10) (digit (u mod 10) # buf)"
      using True by (subst fmtDigits.simps) simp
    also have "\<dots> = fmtDigits (u div 10) [] @ digit (u mod 10) # buf"
      by (rule less[OF lt])
    also have "\<dots> = (fmtDigits (u div 10) [] @ [digit (u mod 10)]) @ buf"
      by simp
    also have "\<dots> = fmtDigits (u div 10) [digit (u mod 10)] @ buf"
      by (simp only: less[OF lt, of "[digit (u mod 10)]"])
    also have "\<dots> = fmtDigits u [] @ buf"
      using True by (subst (2) fmtDigits.simps) simp
    finally show ?thesis .
  next
    case False
    then show ?thesis by (subst (1 2) fmtDigits.simps) simp
  qed
qed

lemma decimal_digit: "n < 10 \<Longrightarrow> decimal n = [digit n]"
  unfolding decimal_def by (subst fmtDigits.simps) simp

lemma decimal_more:
  "10 \<le> n \<Longrightarrow> decimal n = decimal (n div 10) @ [digit (n mod 10)]"
  unfolding decimal_def
  by (subst fmtDigits.simps, subst fmtDigits_append) simp

lemma excess_bits_small: "m < 2 ^ 53 \<Longrightarrow> excess_bits m = 0"
  by (subst excess_bits.simps) simp

lemma digit_chars:
  "digit 0 = CHR ''0''" "digit 1 = CHR ''1''" "digit 2 = CHR ''2''" "digit 3 = CHR ''3''"
  "digit 4 = CHR ''4''" "digit 5 = CHR ''5''" "digit 6 = CHR ''6''" "digit 7 = CHR ''7''"
  "digit 8 = CHR ''8''" "digit 9 = CHR ''9''" "digit (Suc 0) = CHR ''1''"
  by code_simp+

lemmas eval_format = formatSize_def KB_def MB_def GB_def TB_def fmtInteger_def
  sprintf_2f_def float64_def round_half_even_def Let_def
  decimal_digit decimal_more excess_bits_small digit_chars

lemma of_char_digit: "d < 10 \<Longrightarrow> of_char (digit d) = 48 + d"
  by (simp add: digit_def)

lemma value_of_digits_decimal: "value_of_digits (decimal n) = n"
proof (induction n rule: less_induct)
  case (less n)
  show ?case
  proof (cases "n < 10")
    case True
    then show ?thesis
      by (simp add: decimal_digit value_of_digits_def of_char_digit)
  next
    case False
    with less have "value_of_digits (decimal (n div 10)) = n div 10" by simp
    with False show ?thesis
      by (simp add: decimal_more value_of_digits_def of_char_digit)
  qed
qed

lemma round_half_even_nearest:
  assumes "0 < b"
  shows "2 * \<bar>a - round_half_even a b * b\<bar> \<le> b"
proof -
  have a: "a = (a div b) * b + a mod b" by simp
  have r: "0 \<le> a mod b" "a mod b < b" using assms by simp_all
  show ?thesis
  proof (cases "b < 2 * (a mod b) \<or> (2 * (a mod b) = b \<and> odd (a div b))")
    case True
    then have "round_half_even a b = a div b + 1"
      by (simp add: round_half_even_def Let_def)
    then have "a - round_half_even a b * b = a mod b - b"
      using a by (simp add: algebra_simps)
    with True r show ?thesis by auto
  next
    case False
    then have "round_half_even a b = a div b"
      by (simp add: round_half_even_def Let_def)
    then have "a - round_half_even a b * b = a mod b"
      using a by (simp add: algebra_simps)
    with False r show ?thesis by auto
  qed
qed

lemma round_half_even_nonneg: "0 \<le> a \<Longrightarrow> 0 < b \<Longrightarrow> 0 \<le> round_half_even a b"
  by (auto simp: round_half_even_def Let_def pos_imp_zdiv_nonneg_iff)

lemma sprintf_2f_shape:
  assumes "0 \<le> x" "0 < u"
  shows "\<exists>h. sprintf_2f x u
            = decimal (h div 100) @ ''.'' @ [digit (h mod 100 div 10), digit (h mod 10)]
          \<and> 2 * \<bar>100 * x - int h * u\<bar> \<le> u"
proof -
  let ?h = "nat (round_half_even (100 * x) u)"
  have "0 \<le> round_half_even (100 * x) u"
    using assms by (intro round_half_even_nonneg) simp_all
  then have "int ?h = round_half_even (100 * x) u" by simp
  then have "2 * \<bar>100 * x - int ?h * u\<bar> \<le> u"
    using round_half_even_nearest[OF assms(2), of "100 * x"] by simp
  then show ?thesis
    by (intro exI[of _ ?h]) (simp add: sprintf_2f_def Let_def)
qed

lemma float64_exact: "\<bar>n\<bar> < 2 ^ 53 \<Longrightarrow> float64 n = n"
proof -
  assume "\<bar>n\<bar> < 2 ^ 53"
  then have "nat \<bar>n\<bar> < 2 ^ 53" by (simp add: nat_less_iff)
  then have "excess_bits (nat \<bar>n\<bar>) = 0" by (rule excess_bits_small)
  then show ?thesis
    by (simp add: float64_def round_half_even_def Let_def mult_sgn_abs)
qed

lemma formatSize_cases:
  "formatSize sz =
     (if sint sz < 1024 then fmtInteger (sint sz) @ '' B''
      else if sint sz < 1024 ^ 2 then sprintf_2f (float64 (sint sz)) 1024 @ '' KB''
      else if sint sz < 1024 ^ 3 then sprintf_2f (float64 (sint sz)) (1024 ^ 2) @ '' MB''
      else if sint sz < 1024 ^ 4 then sprintf_2f (float64 (sint sz)) (1024 ^ 3) @ '' GB''
      else sprintf_2f (float64 (sint sz)) (1024 ^ 4) @ '' TB'')"
  by (simp add: formatSize_def KB_def MB_def GB_def TB_def)

text \<open>
  C6. \<^verbatim>\<open>formatSize\<close> uses the units B, KB, MB, GB and TB with the thresholds at the
  powers of 1024; below 1024 it prints the integer byte count, and from 1024 on the
  quotient by the unit with exactly two decimals: the integer part, a point and two
  digits, the hundredths \<open>h\<close> being nearest to the quotient (the conversion to
  \<^verbatim>\<open>float64\<close> is exact below \<open>2 ^ 53\<close>). In particular 0 gives \<^verbatim>\<open>0 B\<close>, 1023 gives
  \<^verbatim>\<open>1023 B\<close>, 1024 gives \<^verbatim>\<open>1.00 KB\<close>, 1536 gives \<^verbatim>\<open>1.50 KB\<close> and 1048576 gives
  \<^verbatim>\<open>1.00 MB\<close>.
\<close>

theorem formatSize_units:
  "formatSize sz =
     (if sint sz < 1024 then fmtInteger (sint sz) @ '' B''
      else if sint sz < 1024 ^ 2 then sprintf_2f (float64 (sint sz)) 1024 @ '' KB''
      else if sint sz < 1024 ^ 3 then sprintf_2f (float64 (sint sz)) (1024 ^ 2) @ '' MB''
      else if sint sz < 1024 ^ 4 then sprintf_2f (float64 (sint sz)) (1024 ^ 3) @ '' GB''
      else sprintf_2f (float64 (sint sz)) (1024 ^ 4) @ '' TB'')
   \<and> (0 \<le> x \<and> 0 < u \<longrightarrow>
        (\<exists>h. sprintf_2f x u
               = decimal (h div 100) @ ''.'' @ [digit (h mod 100 div 10), digit (h mod 10)]
             \<and> 2 * \<bar>100 * x - int h * u\<bar> \<le> u))
   \<and> (\<bar>n\<bar> < 2 ^ 53 \<longrightarrow> float64 n = n)
   \<and> value_of_digits (decimal m) = m
   \<and> formatSize 0 = ''0 B''
   \<and> formatSize 1023 = ''1023 B''
   \<and> formatSize 1024 = ''1.00 KB''
   \<and> formatSize 1536 = ''1.50 KB''
   \<and> formatSize 1048576 = ''1.00 MB''"
proof (intro conjI impI)
  show "formatSize sz =
     (if sint sz < 1024 then fmtInteger (sint sz) @ '' B''
      else if sint sz < 1024 ^ 2 then sprintf_2f (float64 (sint sz)) 1024 @ '' KB''
      else if sint sz < 1024 ^ 3 then sprintf_2f (float64 (sint sz)) (1024 ^ 2) @ '' MB''
      else if sint sz < 1024 ^ 4 then sprintf_2f (float64 (sint sz)) (1024 ^ 3) @ '' GB''
      else sprintf_2f (float64 (sint sz)) (1024 ^ 4) @ '' TB'')"
    by (rule formatSize_cases)
  show "\<exists>h. sprintf_2f x u
               = decimal (h div 100) @ ''.'' @ [digit (h mod 100 div 10), digit (h mod 10)]
             \<and> 2 * \<bar>100 * x - int h * u\<bar> \<le> u" if "0 \<le> x \<and> 0 < u"
    using that sprintf_2f_shape by blast
  show "float64 n = n" if "\<bar>n\<bar> < 2 ^ 53"
    using that by (rule float64_exact)
  show "value_of_digits (decimal m) = m"
    by (rule value_of_digits_decimal)
  show "formatSize 0 = ''0 B''" by (simp add: eval_format)
  show "formatSize 1023 = ''1023 B''" by (simp add: eval_format)
  show "formatSize 1024 = ''1.00 KB''" by (simp add: eval_format)
  show "formatSize 1536 = ''1.50 KB''" by (simp add: eval_format)
  show "formatSize 1048576 = ''1.00 MB''" by (simp add: eval_format)
qed

theorem formatSize_units_witness:
  "formatSize 1152 = ''1.12 KB'' \<and> sprintf_2f 1152 1024 = ''1.12'' \<and> float64 1152 = 1152
   \<and> formatSize 1048575 = ''1024.00 KB''"
  using formatSize_units[of 1152 1152 1024 1152]
  by (simp add: eval_format)

text \<open>
  C10. For every negative \<^verbatim>\<open>int64\<close> input, \<^verbatim>\<open>formatSize\<close> passes all the unit
  thresholds and returns the signed byte count followed by \<^verbatim>\<open> B\<close>: a minus sign and the
  decimal digits of the absolute value. For example \<^verbatim>\<open>formatSize(-5)\<close> is \<^verbatim>\<open>-5 B\<close>.
\<close>

theorem formatSize_negative:
  "sint sz < 0 \<Longrightarrow>
     formatSize sz = fmtInteger (sint sz) @ '' B''
     \<and> fmtInteger (sint sz) = ''-'' @ decimal (nat (- sint sz))"
  by (simp add: formatSize_def KB_def MB_def GB_def TB_def fmtInteger_def)

theorem formatSize_negative_witness:
  "sint (- 5 :: 64 word) < 0 \<and> formatSize (- 5) = ''-5 B''"
  using formatSize_negative[of "- 5"] by (simp add: eval_format)

section \<open>The console rendering\<close>

declare printFileTree.simps [simp del]
declare render.simps [simp del]

lemma ancestor_prefix_snoc:
  "ancestor_prefix (lasts @ [l]) = ancestor_prefix lasts @ (if l then ''    '' else bar_indent)"
  by (simp add: ancestor_prefix_def)

lemma ancestor_prefix_empty: "ancestor_prefix lasts = '''' \<longleftrightarrow> lasts = []"
  by (cases lasts) (auto simp: ancestor_prefix_def bar_indent_def)

lemma enumerate_member: "(i, x) \<in> set (enumerate n xs) \<Longrightarrow> x \<in> set xs"
  by (auto simp: in_set_enumerate_eq)

lemma printFileTree_render:
  "lasts \<noteq> [] \<Longrightarrow> printFileTree node (ancestor_prefix lasts) isLast = render lasts isLast node"
proof (induction node arbitrary: lasts isLast)
  case (FileInfo name sz isDir path children)
  have ne: "ancestor_prefix lasts \<noteq> ''''"
    using FileInfo.prems by (simp add: ancestor_prefix_empty)
  let ?new = "ancestor_prefix (lasts @ [isLast])"
  have kids: "map (\<lambda>(i, child). printFileTree child ?new (i = length children - 1))
                (enumerate 0 children)
            = map (\<lambda>(i, child). render (lasts @ [isLast]) (i = length children - 1) child)
                (enumerate 0 children)"
    by (rule map_cong[OF refl]) (auto dest: enumerate_member simp: FileInfo.IH)
  show ?case
  proof (cases "children = []")
    case True
    with ne FileInfo.prems show ?thesis
      by (simp add: printFileTree.simps render.simps Let_def)
  next
    case False
    with ne kids FileInfo.prems show ?thesis
      by (cases isLast)
        (simp_all add: printFileTree.simps render.simps Let_def ancestor_prefix_snoc
          del: map_eq_conv)
  qed
qed

text \<open>
  C7. The console output of a tree is the rendering of the specification: the root has
  no connector and no prefix; every other node has the corner connector when it is the
  last sibling and the tee otherwise, after a prefix that joins, over its ancestors from
  the root down, four spaces for an ancestor that was the last sibling at its level and
  the bar with three spaces for one that was not. This holds at every depth.
\<close>

theorem console_tree_connectors:
  "printFileTree root '''' True = render [] True root"
proof (cases root)
  case (FileInfo name sz isDir path children)
  have kids: "map (\<lambda>(i, child). printFileTree child ''    '' (i = length children - 1))
                (enumerate 0 children)
            = map (\<lambda>(i, child). render [True] (i = length children - 1) child)
                (enumerate 0 children)"
    using printFileTree_render[of "[True]"]
    by (intro map_cong[OF refl]) (auto simp: ancestor_prefix_def)
  show ?thesis
  proof (cases "children = []")
    case True
    then show ?thesis
      by (simp add: FileInfo printFileTree.simps render.simps Let_def ancestor_prefix_def)
  next
    case False
    with kids show ?thesis
      by (simp add: FileInfo printFileTree.simps render.simps Let_def ancestor_prefix_def
          del: map_eq_conv)
  qed
qed

theorem console_tree_connectors_witness:
  "printFileTree example_tree '''' True =
     [''d/ (60 B)'' @ [CHR 0x0A],
      ''    '' @ connector_mid @ ''b.txt (10 B)'' @ [CHR 0x0A],
      ''    '' @ connector_mid @ ''A/ (30 B)'' @ [CHR 0x0A],
      ''    '' @ bar_indent @ connector_mid @ ''y (10 B)'' @ [CHR 0x0A],
      ''    '' @ bar_indent @ connector_last @ ''X (20 B)'' @ [CHR 0x0A],
      ''    '' @ connector_last @ ''a.txt (20 B)'' @ [CHR 0x0A]]"
  using console_tree_connectors[of example_tree]
  by (simp add: example_tree_def render.simps ancestor_prefix_def eval_format)

section \<open>The walk\<close>

lemma build_fails_iff: "isl (buildFileTreeRecursive fp sub node) \<longleftrightarrow> fails sub"
  by (cases sub) (auto simp: fails_def split: prod.splits)

lemma walkEntries_result:
  "walkEntries fp nodePath entries (children, totalSize) =
     (children @ map (\<lambda>(n, sub). projr (buildFileTreeRecursive fp sub (newChild fp nodePath n)))
                   (filter (\<lambda>(n, sub). \<not> fails sub) entries),
      totalSize + sum_list (map (\<lambda>(n, sub). Size (projr (buildFileTreeRecursive fp sub (newChild fp nodePath n))))
                   (filter (\<lambda>(n, sub). \<not> fails sub) entries)))"
proof (induction entries arbitrary: children totalSize)
  case Nil
  then show ?case by simp
next
  case (Cons e entries)
  obtain n sub where e: "e = (n, sub)" by (cases e)
  show ?case
  proof (cases "buildFileTreeRecursive fp sub (newChild fp nodePath n)")
    case (Inl err)
    then have "fails sub" using build_fails_iff[of fp sub "newChild fp nodePath n"] by simp
    with Inl show ?thesis by (simp add: e Cons.IH newChild_def)
  next
    case (Inr child)
    then have "\<not> fails sub" using build_fails_iff[of fp sub "newChild fp nodePath n"] by auto
    with Inr show ?thesis by (simp add: e Cons.IH newChild_def add.assoc)
  qed
qed

lemma build_keeps_name:
  "buildFileTreeRecursive fp sub node = Inr t \<Longrightarrow> Name t = Name node \<and> Path t = Path node"
  by (cases sub) (auto split: prod.splits)

lemma build_not_fails:
  "\<not> fails sub \<Longrightarrow> \<exists>t. buildFileTreeRecursive fp sub node = Inr t"
  using build_fails_iff[of fp sub node] by (cases "buildFileTreeRecursive fp sub node") auto

lemma build_directory:
  "buildFileTreeRecursive fp (Directory entries) node =
     Inr (FileInfo (Name node)
            (sum_list (map (\<lambda>(n, sub). Size (projr (buildFileTreeRecursive fp sub (newChild fp (Path node) n))))
                       (filter (\<lambda>(n, sub). \<not> fails sub) entries)))
            True (Path node)
            (Children node @
             map (\<lambda>(n, sub). projr (buildFileTreeRecursive fp sub (newChild fp (Path node) n)))
               (filter (\<lambda>(n, sub). \<not> fails sub) entries)))"
  by (simp add: walkEntries_result)

lemma built_name:
  "\<not> fails sub \<Longrightarrow> Name (projr (buildFileTreeRecursive fp sub (newChild fp p n))) = n"
  using build_not_fails[of sub fp "newChild fp p n"] build_keeps_name[of fp sub "newChild fp p n"]
  by (auto simp: newChild_def)

lemma build_example:
  "buildFileTreeRecursive unixPath (Directory example_entries) (FileInfo ''d'' 0 False ''/d'' [])
     = Inr example_tree"
  by (simp add: example_entries_def example_tree_def unixPath_def)

text \<open>
  C5. In the walk of a directory, an entry whose \<^verbatim>\<open>os.Stat\<close> or \<^verbatim>\<open>os.ReadDir\<close> fails
  (and no other entry: those are the entries whose subtree returns an error) is passed
  over: the walk of the directory still returns a node; its children are the nodes built
  for the entries that do not fail, in the order of the listing, under the names of
  these entries; and its size is the sum of the sizes of these children only.
\<close>

theorem failing_entries_are_skipped:
  assumes "Children node = []"
  shows "\<exists>root. buildFileTreeRecursive fp (Directory entries) node = Inr root
      \<and> Children root
          = map (\<lambda>(n, sub). projr (buildFileTreeRecursive fp sub (newChild fp (Path node) n)))
              (filter (\<lambda>(n, sub). \<not> fails sub) entries)
      \<and> map Name (Children root) = map fst (filter (\<lambda>(n, sub). \<not> fails sub) entries)
      \<and> Size root = sum_list (map Size (Children root))
      \<and> (\<forall>(n, sub) \<in> set entries.
            fails sub \<longleftrightarrow> isl (buildFileTreeRecursive fp sub (newChild fp (Path node) n)))"
proof -
  let ?ok = "filter (\<lambda>(n, sub). \<not> fails sub) entries"
  let ?built = "\<lambda>(n, sub). projr (buildFileTreeRecursive fp sub (newChild fp (Path node) n))"
  let ?sz = "\<lambda>(n, sub). Size (projr (buildFileTreeRecursive fp sub (newChild fp (Path node) n)))"
  let ?root = "FileInfo (Name node) (sum_list (map ?sz ?ok))
                 True (Path node) (Children node @ map ?built ?ok)"
  have b: "buildFileTreeRecursive fp (Directory entries) node = Inr ?root"
    by (rule build_directory)
  have n: "map Name (map ?built ?ok) = map fst ?ok"
    unfolding map_map by (rule map_cong[OF refl]) (auto simp: built_name)
  have s: "sum_list (map ?sz ?ok) = sum_list (map Size (map ?built ?ok))"
    unfolding map_map by (rule arg_cong[of _ _ sum_list], rule map_cong[OF refl]) auto
  have f: "\<forall>(n, sub) \<in> set entries.
            fails sub \<longleftrightarrow> isl (buildFileTreeRecursive fp sub (newChild fp (Path node) n))"
    by (simp add: build_fails_iff case_prod_unfold)
  show ?thesis
    apply (rule exI[of _ ?root])
    apply (intro conjI)
        apply (rule b)
       apply (simp add: assms)
      apply (simp only: FileInfo.sel assms append_Nil n)
     apply (simp only: FileInfo.sel assms append_Nil s)
    apply (rule f)
    done
qed

theorem failing_entries_are_skipped_witness:
  "\<exists>root. buildFileTreeRecursive unixPath (Directory example_entries)
             (FileInfo ''d'' 0 False ''/d'' []) = Inr root
      \<and> root = example_tree
      \<and> map Name (Children root) = [''b.txt'', ''A'', ''a.txt'']
      \<and> Size root = 60
      \<and> fails StatFails \<and> fails DirReadFails"
proof -
  have c: "Children (FileInfo ''d'' 0 False ''/d'' []) = []" by simp
  from failing_entries_are_skipped[OF c, of unixPath example_entries]
  obtain root where
    r: "buildFileTreeRecursive unixPath (Directory example_entries)
          (FileInfo ''d'' 0 False ''/d'' []) = Inr root"
    and n: "map Name (Children root)
          = map fst (filter (\<lambda>(n, sub). \<not> fails sub) example_entries)"
    by blast
  from r build_example have e: "root = example_tree" by simp
  have k: "map fst (filter (\<lambda>(n, sub). \<not> fails sub) example_entries)
      = [''b.txt'', ''A'', ''a.txt'']"
    by (simp add: example_entries_def fails_def)
  have s: "Size example_tree = 60" by (simp add: example_tree_def)
  show ?thesis
    using r e n k s by (simp add: fails_def)
qed

lemma build_size_is_sum:
  "buildFileTreeRecursive fp sub node = Inr t \<Longrightarrow> Children node = [] \<Longrightarrow>
     every_node size_is_sum t"
proof (induction sub arbitrary: node t)
  case StatFails
  then show ?case by simp
next
  case (RegularFile n)
  then show ?case by (auto simp: size_is_sum_def)
next
  case DirReadFails
  then show ?case by simp
next
  case (Directory entries)
  let ?built = "\<lambda>(n, sub). projr (buildFileTreeRecursive fp sub (newChild fp (Path node) n))"
  let ?ok = "filter (\<lambda>(n, sub). \<not> fails sub) entries"
  have t: "t = FileInfo (Name node) (sum_list (map (\<lambda>x. Size (?built x)) ?ok)) True (Path node)
                (map ?built ?ok)"
    using Directory.prems unfolding build_directory by (simp add: case_prod_unfold)
  have "every_node size_is_sum (?built e)" if "e \<in> set ?ok" for e
  proof -
    obtain n sub where e: "e = (n, sub)" by (cases e)
    from that have nf: "\<not> fails sub" and mem: "(n, sub) \<in> set entries" by (auto simp: e)
    obtain c where c: "buildFileTreeRecursive fp sub (newChild fp (Path node) n) = Inr c"
      using build_not_fails[OF nf] by blast
    have "every_node size_is_sum c"
      by (rule Directory.IH[OF mem _ c]) (simp_all add: newChild_def)
    with c show ?thesis by (simp add: e)
  qed
  then have kids: "\<forall>c \<in> set (map ?built ?ok). every_node size_is_sum c"
    by auto
  have top: "size_is_sum (FileInfo (Name node) (sum_list (map (\<lambda>x. Size (?built x)) ?ok)) True
                (Path node) (map ?built ?ok))"
    by (simp add: size_is_sum_def comp_def)
  show ?case
    unfolding t every_node.simps using kids top by blast
qed

text \<open>
  C1. In every tree that \<^verbatim>\<open>buildFileTree\<close> returns, the size of every directory node is
  the sum of the sizes of the children in its list (the sum of \<^verbatim>\<open>int64\<close> values, which
  wraps around as the additions of the source do).
\<close>

theorem directory_size_is_sum_of_children:
  "buildFileTree fp disk rootPath = Inr root \<Longrightarrow> every_node size_is_sum root"
  by (auto simp: buildFileTree_def split: sum.splits dest: build_size_is_sum)

theorem directory_size_is_sum_of_children_witness:
  "buildFileTree unixPath (Directory example_entries) ''/d'' = Inr example_tree
   \<and> every_node size_is_sum example_tree"
proof -
  have b: "buildFileTree unixPath (Directory example_entries) ''/d'' = Inr example_tree"
    using build_example by (simp add: buildFileTree_def unixPath_def)
  from directory_size_is_sum_of_children[OF b] b show ?thesis by simp
qed

section \<open>The earlier revision\<close>

text \<open>
  Under the name key the two revisions compare alike; under the size key the earlier
  one still orders a directory before a file, whatever the sizes and the reverse flag.
\<close>

lemma sortLess_v1_name:
  "sortLess_v1 ToLower SortByName reverse a b = sortLess ToLower SortByName reverse a b"
  by (simp add: sortLess_v1_def sortLess_def)

lemma sortLess_v1_size_same_kind:
  "IsDir a = IsDir b \<Longrightarrow>
     sortLess_v1 ToLower SortBySize reverse a b = sortLess ToLower SortBySize reverse a b"
  by (simp add: sortLess_v1_def sortLess_def)

lemma sortLess_v1_size_directories_first:
  "IsDir a \<Longrightarrow> \<not> IsDir b \<Longrightarrow>
     sortLess_v1 ToLower SortBySize reverse a b \<and> \<not> sortLess_v1 ToLower SortBySize reverse b a"
  by (simp add: sortLess_v1_def)

text \<open>
  The walk of the earlier revision passes over an entry whose \<^verbatim>\<open>entry.Info()\<close> fails,
  but it keeps a subdirectory whose listing fails, with the size that its own
  \<^verbatim>\<open>entry.Info()\<close> reports and no children.
\<close>

lemma build_v1_keeps_unreadable_directory:
  "buildFileTree_v1 unixPath example_disk_v1 ''/d'' =
     (Some (FileInfo ''d'' 4126 True ''/d''
        [FileInfo ''b.txt'' 10 False ''/d/b.txt'' [],
         FileInfo ''locked'' 4096 True ''/d/locked'' [],
         FileInfo ''a.txt'' 20 False ''/d/a.txt'' []]), None)"
  by (simp add: example_disk_v1_def unixPath_def calculateDirSize_def)

end
